theory Spec2Isabelle
  imports Complex_Main "HOL-Library.Word"
begin

section \<open>Pixel buffers\<close>

text \<open>
  An \<open>ImageData\<close> of the canvas API has a width, a height and a \<open>Uint8ClampedArray\<close>
  of \<open>4 * width * height\<close> bytes, four (R, G, B, A) per pixel, row-major. The record is
  polymorphic in the buffer: a byte list where only values matter, an address into a
  store of typed arrays where aliasing matters.
\<close>

type_synonym byte = "8 word"

record 'd ImageData =
  width :: nat
  height :: nat
  data :: 'd

datatype dom_error = IndexSizeError | InvalidStateError

text \<open>The browser keeps \<open>data.length = 4 * width * height\<close> with both sides positive.\<close>

definition wf_image :: "byte list ImageData \<Rightarrow> bool" where
  "wf_image im \<longleftrightarrow>
     0 < width im \<and> 0 < height im \<and> length (data im) = 4 * width im * height im"

text \<open>Reading a typed array out of range gives \<open>undefined\<close>, which a numeric store turns into 0.\<close>

definition rd :: "byte list \<Rightarrow> nat \<Rightarrow> nat" where
  "rd d k = (if k < length d then unat (d ! k) else 0)"

text \<open>
  \<open>Math.round(sum / cnt)\<close> on non-negative integers: \<open>None\<close> is the NaN of \<open>0 / 0\<close>;
  otherwise the quotient rounded to the nearest integer, halves upwards.
\<close>

definition round_div :: "nat \<Rightarrow> nat \<Rightarrow> nat option" where
  "round_div s c = (if c = 0 then None else Some ((2 * s + c) div (2 * c)))"

text \<open>Storing into a \<open>Uint8ClampedArray\<close>: NaN becomes 0, larger values are clamped to 255.\<close>

definition to_u8c :: "nat option \<Rightarrow> byte" where
  "to_u8c v = (case v of None \<Rightarrow> 0 | Some n \<Rightarrow> of_nat (min n 255))"

text \<open>\<open>new ImageData(out, width, height)\<close> throws unless the buffer fits the dimensions.\<close>

definition new_ImageData :: "byte list \<Rightarrow> nat \<Rightarrow> nat \<Rightarrow> dom_error + byte list ImageData" where
  "new_ImageData out w h =
     (if length out = 0 \<or> length out mod 4 \<noteq> 0 then Inl InvalidStateError
      else if w = 0 \<or> length out \<noteq> 4 * w * h then Inl IndexSizeError
      else Inr \<lparr>width = w, height = h, data = out\<rparr>)"

subsection \<open>blurMask\<close>

text \<open>
  The two inner loops of \<open>blurMask\<close> visit \<open>yy\<close> from \<open>max(0, y - r)\<close> to
  \<open>min(height - 1, y + r)\<close> and, for each, \<open>xx\<close> from \<open>max(0, x - r)\<close> to
  \<open>min(width - 1, x + r)\<close>; \<open>window\<close> lists the pairs \<open>(yy, xx)\<close> in that order.
\<close>

definition window :: "nat \<Rightarrow> nat \<Rightarrow> int \<Rightarrow> nat \<Rightarrow> nat \<Rightarrow> (int \<times> int) list" where
  "window w h r x y =
     List.product [max 0 (int y - r) .. min (int h - 1) (int y + r)]
                  [max 0 (int x - r) .. min (int w - 1) (int x + r)]"

definition window_sum :: "nat \<Rightarrow> nat \<Rightarrow> nat list \<Rightarrow> int \<Rightarrow> nat \<Rightarrow> nat \<Rightarrow> nat" where
  "window_sum w h tmp r x y =
     sum_list (map (\<lambda>(yy, xx). tmp ! nat (yy * int w + xx)) (window w h r x y))"

definition window_cnt :: "nat \<Rightarrow> nat \<Rightarrow> int \<Rightarrow> nat \<Rightarrow> nat \<Rightarrow> nat" where
  "window_cnt w h r x y = length (window w h r x y)"

text \<open>
  One pass of the body of the \<open>x\<close> loop: the three colour bytes are zeroed (the chained
  assignment stores right to left), then the alpha byte receives the rounded mean.
  A typed array ignores a store out of range, as \<open>list_update\<close> does.
\<close>

definition blur_px :: "nat \<Rightarrow> nat \<Rightarrow> nat list \<Rightarrow> int \<Rightarrow> nat \<times> nat \<Rightarrow> byte list \<Rightarrow> byte list" where
  "blur_px w h tmp r p out =
     (case p of (y, x) \<Rightarrow>
        let v = round_div (window_sum w h tmp r x y) (window_cnt w h r x y);
            idx = (y * w + x) * 4
        in out[idx + 2 := 0, idx + 1 := 0, idx := 0, idx + 3 := to_u8c v])"

definition alpha_plane :: "nat \<Rightarrow> nat \<Rightarrow> byte list \<Rightarrow> nat list" where
  "alpha_plane w h d = map (\<lambda>i. rd d (i * 4 + 3)) [0..<w * h]"

definition blurMask :: "byte list ImageData \<Rightarrow> int \<Rightarrow> dom_error + byte list ImageData" where
  "blurMask imageData radius =
     (let w = width imageData; h = height imageData; d = data imageData;
          out = replicate (length d) 0;
          tmp = alpha_plane w h d;
          out' = fold (blur_px w h tmp radius) (List.product [0..<h] [0..<w]) out
      in new_ImageData out' w h)"

text \<open>The byte that the loop body stores for pixel number \<open>i = y * width + x\<close>.\<close>

definition px_val :: "nat \<Rightarrow> nat \<Rightarrow> nat list \<Rightarrow> int \<Rightarrow> nat \<Rightarrow> byte" where
  "px_val w h tmp r i =
     to_u8c (round_div (window_sum w h tmp r (i mod w) (i div w)) (window_cnt w h r (i mod w) (i div w)))"

subsection \<open>The box mean, as the specification words it\<close>

text \<open>
  The in-bounds pixels of the square window of side \<open>2 * r + 1\<close> centred on \<open>(x, y)\<close>,
  the unweighted mean of their alpha values with the number of those pixels as divisor,
  and rounding to the nearest integer with halves upwards.
\<close>

definition window_cells :: "nat \<Rightarrow> nat \<Rightarrow> int \<Rightarrow> nat \<Rightarrow> nat \<Rightarrow> (nat \<times> nat) list" where
  "window_cells w h r x y =
     filter (\<lambda>(xx, yy). \<bar>int xx - int x\<bar> \<le> r \<and> \<bar>int yy - int y\<bar> \<le> r) (List.product [0..<w] [0..<h])"

definition alpha_at :: "byte list ImageData \<Rightarrow> nat \<Rightarrow> nat \<Rightarrow> nat" where
  "alpha_at im x y = unat (data im ! ((y * width im + x) * 4 + 3))"

definition window_mean :: "byte list ImageData \<Rightarrow> int \<Rightarrow> nat \<Rightarrow> nat \<Rightarrow> rat" where
  "window_mean im r x y =
     of_nat (sum_list (map (\<lambda>(xx, yy). alpha_at im xx yy) (window_cells (width im) (height im) r x y)))
       / of_nat (length (window_cells (width im) (height im) r x y))"

definition round_half_up :: "rat \<Rightarrow> int" where
  "round_half_up q = \<lfloor>q + 1 / 2\<rfloor>"

definition cells_sum :: "byte list ImageData \<Rightarrow> int \<Rightarrow> nat \<Rightarrow> nat \<Rightarrow> nat" where
  "cells_sum im r x y =
     sum_list (map (\<lambda>(xx, yy). alpha_at im xx yy) (window_cells (width im) (height im) r x y))"

subsection \<open>blurMask with its arrays in a store\<close>

text \<open>
  For what the call does to the caller's buffer, the typed arrays live in a store: an
  address is an index into the list of allocated arrays, and \<open>new Uint8ClampedArray(n)\<close>
  appends a zero-filled array, whose address is the old length of the store. The loop
  body stores through the address \<open>out\<close>, as \<open>out[idx] = ...\<close> does; \<open>tmp\<close> is read
  from the array at the address in \<open>imageData.data\<close>.
\<close>

type_synonym addr = nat
type_synonym heap = "byte list list"

definition alloc_u8c :: "heap \<Rightarrow> nat \<Rightarrow> heap \<times> addr" where
  "alloc_u8c hp n = (hp @ [replicate n 0], length hp)"

definition blur_px_heap :: "nat \<Rightarrow> nat \<Rightarrow> nat list \<Rightarrow> int \<Rightarrow> addr \<Rightarrow> nat \<times> nat \<Rightarrow> heap \<Rightarrow> heap" where
  "blur_px_heap w h tmp r out p hp = hp[out := blur_px w h tmp r p (hp ! out)]"

definition new_ImageData_heap :: "heap \<Rightarrow> addr \<Rightarrow> nat \<Rightarrow> nat \<Rightarrow> dom_error + addr ImageData" where
  "new_ImageData_heap hp out w h =
     (case new_ImageData (hp ! out) w h of
        Inl e \<Rightarrow> Inl e
      | Inr _ \<Rightarrow> Inr \<lparr>width = w, height = h, data = out\<rparr>)"

definition blurMask_heap :: "heap \<Rightarrow> addr ImageData \<Rightarrow> int \<Rightarrow> heap \<times> (dom_error + addr ImageData)" where
  "blurMask_heap hp imageData radius =
     (let w = width imageData; h = height imageData; d = data imageData;
          (hp1, out) = alloc_u8c hp (length (hp ! d));
          tmp = alpha_plane w h (hp1 ! d);
          hp2 = fold (blur_px_heap w h tmp radius out) (List.product [0..<h] [0..<w]) hp1
      in (hp2, new_ImageData_heap hp2 out w h))"

text \<open>The image a reference denotes in a store.\<close>

definition deref :: "heap \<Rightarrow> addr ImageData \<Rightarrow> byte list ImageData" where
  "deref hp im = \<lparr>width = width im, height = height im, data = hp ! data im\<rparr>"

section \<open>The canvas calls of processFrame\<close>

text \<open>
  \<open>processFrame\<close> leaves scaling and blending to the 2D canvas. The model keeps what the
  canvas standard fixes and takes the rest as a parameter:
  \<^item> an off-screen canvas that the code only draws on while it is blank, or fills with
    \<open>putImageData\<close>, holds bytes like an \<open>ImageData\<close>;
  \<^item> the displayed canvas holds exact channel values on the scale 0 to 255, blended by
    the source-over rule; a browser stores them in 8 bits with a rounding of its own;
  \<^item> an image drawn at its own size is copied pixel for pixel (camera frames are
    opaque); how an image is resampled into a rectangle of another size is the
    browser's: a \<open>scaler\<close> gives the pixel of the image, drawn into the destination
    rectangle \<open>(dx, dy, dWidth, dHeight)\<close>, that lands on canvas position \<open>(x, y)\<close>;
  \<^item> \<open>getContext('2d')\<close> returns a context on a canvas that has no other kind of
    context, which is every canvas here, so the \<open>null\<close> branches are not modelled.
\<close>

type_synonym bpx = "byte \<times> byte \<times> byte \<times> byte"
type_synonym rpx = "rat \<times> rat \<times> rat \<times> rat"
type_synonym rect = "rat \<times> rat \<times> rat \<times> rat"
type_synonym scaler = "byte list ImageData \<Rightarrow> rect \<Rightarrow> nat \<Rightarrow> nat \<Rightarrow> bpx option"

definition bt :: "byte list \<Rightarrow> nat \<Rightarrow> byte" where
  "bt d k = (if k < length d then d ! k else 0)"

definition pixel_at :: "byte list ImageData \<Rightarrow> nat \<Rightarrow> nat \<Rightarrow> bpx" where
  "pixel_at im x y =
     (let k = (y * width im + x) * 4
      in (bt (data im) k, bt (data im) (k + 1), bt (data im) (k + 2), bt (data im) (k + 3)))"

definition channel :: "bpx \<Rightarrow> nat \<Rightarrow> byte" where
  "channel p j = (case p of (r, g, b, a) \<Rightarrow> [r, g, b, a] ! j)"

definition lift :: "bpx \<Rightarrow> rpx" where
  "lift p = (case p of (r, g, b, a) \<Rightarrow>
     (of_nat (unat r), of_nat (unat g), of_nat (unat b), of_nat (unat a)))"

definition placed :: "scaler \<Rightarrow> byte list ImageData \<Rightarrow> rect \<Rightarrow> nat \<Rightarrow> nat \<Rightarrow> bpx option" where
  "placed sc img r x y =
     (if r = (0, 0, of_nat (width img), of_nat (height img))
      then (if x < width img \<and> y < height img then Some (pixel_at img x y) else None)
      else sc img r x y)"

text \<open>A blank canvas of \<open>w\<close> by \<open>h\<close> after \<open>drawImage(img, 0, 0, w, h)\<close>.\<close>

definition drawImage_blank :: "scaler \<Rightarrow> byte list ImageData \<Rightarrow> nat \<Rightarrow> nat \<Rightarrow> byte list ImageData" where
  "drawImage_blank sc img w h =
     \<lparr>width = w, height = h,
      data = map (\<lambda>k. case placed sc img (0, 0, of_nat w, of_nat h) ((k div 4) mod w) ((k div 4) div w) of
                        None \<Rightarrow> 0
                      | Some p \<Rightarrow> channel p (k mod 4)) [0..<4 * w * h]\<rparr>"

text \<open>
  \<open>getImageData(0, 0, w, h)\<close>: an \<open>IndexSizeError\<close> for an empty rectangle, transparent
  black outside the canvas.
\<close>

definition getImageData :: "byte list ImageData \<Rightarrow> nat \<Rightarrow> nat \<Rightarrow> dom_error + byte list ImageData" where
  "getImageData cv w h =
     (if w = 0 \<or> h = 0 then Inl IndexSizeError
      else Inr \<lparr>width = w, height = h,
                data = map (\<lambda>k. let x = (k div 4) mod w; y = (k div 4) div w
                                in if x < width cv \<and> y < height cv
                                   then bt (data cv) ((y * width cv + x) * 4 + k mod 4) else 0)
                         [0..<4 * w * h]\<rparr>)"

text \<open>The displayed canvas. Assigning its \<open>width\<close> or \<open>height\<close>, also to the value it has,
  resets the bitmap to transparent black.\<close>

record dcanvas =
  cwidth :: nat
  cheight :: nat
  bitmap :: "rpx list"

definition reset_canvas :: "nat \<Rightarrow> nat \<Rightarrow> dcanvas" where
  "reset_canvas w h = \<lparr>cwidth = w, cheight = h, bitmap = replicate (w * h) (0, 0, 0, 0)\<rparr>"

text \<open>Source-over: the source pixel \<open>s\<close> composited onto the backdrop \<open>b\<close>.\<close>

definition source_over :: "rpx \<Rightarrow> rpx \<Rightarrow> rpx" where
  "source_over s b =
     (case s of (rs, gs, bs, as) \<Rightarrow> case b of (rb, gb, bb, ab) \<Rightarrow>
        let ao = as + ab * (255 - as) / 255
        in if ao = 0 then (0, 0, 0, 0)
           else ((rs * as + rb * ab * (255 - as) / 255) / ao,
                 (gs * as + gb * ab * (255 - as) / 255) / ao,
                 (bs * as + bb * ab * (255 - as) / 255) / ao,
                 ao))"

definition on_pixels :: "(nat \<Rightarrow> nat \<Rightarrow> rpx \<Rightarrow> rpx) \<Rightarrow> dcanvas \<Rightarrow> dcanvas" where
  "on_pixels f cv =
     cv\<lparr>bitmap := map (\<lambda>i. f (i mod cwidth cv) (i div cwidth cv) (bitmap cv ! i))
                       [0..<length (bitmap cv)]\<rparr>"

definition clearRect :: "nat \<Rightarrow> nat \<Rightarrow> dcanvas \<Rightarrow> dcanvas" where
  "clearRect w h = on_pixels (\<lambda>x y p. if x < w \<and> y < h then (0, 0, 0, 0) else p)"

definition fillRect :: "rpx \<Rightarrow> nat \<Rightarrow> nat \<Rightarrow> dcanvas \<Rightarrow> dcanvas" where
  "fillRect c w h = on_pixels (\<lambda>x y p. if x < w \<and> y < h then source_over c p else p)"

definition drawImage :: "scaler \<Rightarrow> byte list ImageData \<Rightarrow> rect \<Rightarrow> dcanvas \<Rightarrow> dcanvas" where
  "drawImage sc img r =
     on_pixels (\<lambda>x y p. case placed sc img r x y of None \<Rightarrow> p | Some s \<Rightarrow> source_over (lift s) p)"

text \<open>The CSS colour \<open>green\<close> is \<open>rgb(0, 128, 0)\<close>; \<open>#f0f0f0\<close> is \<open>rgb(240, 240, 240)\<close>.\<close>

definition green :: rpx where
  "green = (0, 128, 0, 255)"

definition light_gray :: rpx where
  "light_gray = (240, 240, 240, 255)"

subsection \<open>enhanceGamma\<close>

text \<open>
  \<open>enhanceGamma\<close> overwrites the three colour bytes of every pixel of the buffer it is
  given with \<open>Math.min(255, Math.pow(v / 255, 1 / gamma) * 255)\<close>, where \<open>v\<close> is the byte;
  \<open>curve\<close> is that expression as the clamped array stores it. For the default
  \<open>gamma = 1.5\<close>, the only one the code uses, the stored byte is \<open>255 * (v / 255) ^ (2 / 3)\<close>
  rounded to the nearest integer, which is the number of \<open>n < 255\<close> with
  \<open>(n + 1 / 2) ^ 3 \<le> 255 * v ^ 2\<close>.
\<close>

definition enhanceGamma :: "(nat \<Rightarrow> byte) \<Rightarrow> byte list ImageData \<Rightarrow> byte list ImageData" where
  "enhanceGamma curve imageData =
     imageData\<lparr>data := map (\<lambda>k. if k mod 4 < 3 then curve (unat (data imageData ! k))
                                 else data imageData ! k) [0..<length (data imageData)]\<rparr>"

definition gamma_curve :: "nat \<Rightarrow> byte" where
  "gamma_curve v = of_nat (length (filter (\<lambda>n. (2 * n + 1) ^ 3 \<le> 2040 * v * v) [0..<255]))"

subsection \<open>Mask reconciliation and compositing\<close>

text \<open>
  Lines 240 to 261: the mask is put on a canvas of its own size; if that size is not
  \<open>width\<close> by \<open>height\<close> the canvas is drawn, smoothed, into one that is; the pixels read
  back go through \<open>blurMask\<close> with radius 1.
\<close>

definition resample :: "scaler \<Rightarrow> byte list ImageData \<Rightarrow> nat \<Rightarrow> nat \<Rightarrow> byte list ImageData" where
  "resample sc maskCanvas w h = drawImage_blank sc maskCanvas w h"

definition reconcileMask :: "scaler \<Rightarrow> byte list ImageData \<Rightarrow> nat \<Rightarrow> nat \<Rightarrow> dom_error + byte list ImageData" where
  "reconcileMask sc maskImageData w h =
     (let maskCanvas = maskImageData;
          maskCanvas' = (if width maskCanvas \<noteq> w \<or> height maskCanvas \<noteq> h
                         then resample sc maskCanvas w h else maskCanvas)
      in case getImageData maskCanvas' w h of
           Inl e \<Rightarrow> Inl e
         | Inr px \<Rightarrow> blurMask px 1)"

text \<open>Lines 279 to 287: colour from the video pixels, alpha from the mask.\<close>

definition compose_px :: "byte list \<Rightarrow> byte list \<Rightarrow> nat \<Rightarrow> byte list \<Rightarrow> byte list" where
  "compose_px videoData maskData i out =
     (let idx = i * 4
      in out[idx := bt videoData idx, idx + 1 := bt videoData (idx + 1),
             idx + 2 := bt videoData (idx + 2), idx + 3 := bt maskData (idx + 3)])"

definition compose_out :: "byte list ImageData \<Rightarrow> byte list ImageData \<Rightarrow> nat \<Rightarrow> nat \<Rightarrow> byte list ImageData" where
  "compose_out videoData finalMask w h =
     \<lparr>width = w, height = h,
      data = fold (compose_px (data videoData) (data finalMask)) [0..<w * h] (replicate (4 * w * h) 0)\<rparr>"

text \<open>
  Lines 263 to 296, on the displayed canvas \<open>ctx\<close>: the background image stretched to the
  canvas, or the fill; then the video frame with the mask as its alpha, drawn over it.
  Should reading the video pixels throw, the canvas stays as the background step left it.
\<close>

definition processFrame_bg_rect :: "nat \<Rightarrow> nat \<Rightarrow> rect" where
  "processFrame_bg_rect w h = (0, 0, of_nat w, of_nat h)"

definition composite ::
  "scaler \<Rightarrow> byte list ImageData option \<Rightarrow> byte list ImageData \<Rightarrow> byte list ImageData \<Rightarrow> nat \<Rightarrow> nat \<Rightarrow> dcanvas \<Rightarrow> dcanvas" where
  "composite sc bgImage vid finalMask w h ctx =
     (let c1 = clearRect w h ctx;
          c2 = (case bgImage of
                  Some img \<Rightarrow> drawImage sc img (processFrame_bg_rect w h) c1
                | None \<Rightarrow> fillRect green w h c1);
          fgCanvas = drawImage_blank sc vid w h
      in case getImageData fgCanvas w h of
           Inl e \<Rightarrow> c2
         | Inr videoData \<Rightarrow>
             let out = compose_out videoData finalMask w h
             in drawImage sc out (0, 0, of_nat w, of_nat h) c2)"

text \<open>
  \<open>replaceBackground\<close> and \<open>createBackground\<close>, the still-image paths, compute the
  rectangle they draw the background into from the canvas size and the image size
  (JavaScript numbers taken as exact rationals).
\<close>

definition cover_rect :: "nat \<Rightarrow> nat \<Rightarrow> nat \<Rightarrow> nat \<Rightarrow> rect" where
  "cover_rect cw ch bw bh =
     (let scale = max (of_nat cw / of_nat bw) (of_nat ch / of_nat bh);
          scaledWidth = of_nat bw * scale;
          scaledHeight = of_nat bh * scale;
          x = (of_nat cw - scaledWidth) / 2;
          y = (of_nat ch - scaledHeight) / 2
      in (x, y, scaledWidth, scaledHeight))"

subsection \<open>Compositing, as the specification words it\<close>


definition backdrop :: "scaler \<Rightarrow> byte list ImageData option \<Rightarrow> nat \<Rightarrow> nat \<Rightarrow> nat \<Rightarrow> nat \<Rightarrow> rpx" where
  "backdrop sc bgImage w h x y =
     (case bgImage of
        None \<Rightarrow> green
      | Some img \<Rightarrow>
          (case placed sc img (processFrame_bg_rect w h) x y of
             None \<Rightarrow> (0, 0, 0, 0)
           | Some p \<Rightarrow> source_over (lift p) (0, 0, 0, 0)))"

text \<open>A scaler that gives the same answer everywhere, for concrete inputs.\<close>

definition const_scaler :: "bpx option \<Rightarrow> scaler" where
  "const_scaler p img r x y = p"

section \<open>The component: state, effects and the frame loop\<close>

datatype ModelStatus = Idle | Loading | Ready | Error
datatype EnhanceMode = EnhanceNone | EnhanceGamma

text \<open>A cycle whose inference is awaited: the \<open>width\<close> and \<open>height\<close> its closure captured.\<close>

record pending =
  pwidth :: nat
  pheight :: nat

text \<open>
  The React state (\<open>modelStatus\<close>, \<open>running\<close>), the refs, whether a \<open>loop\<close> callback is
  scheduled with \<open>requestAnimationFrame\<close>, the current frame of the video element
  (width 0 before the first one), the two canvases of the component and the cycles in
  flight.
\<close>

record state =
  modelStatus :: ModelStatus
  running :: bool
  runningRef :: bool
  videoReadyRef :: bool
  enhanceRef :: EnhanceMode
  bgImageRef :: "byte list ImageData option"
  segmenterRef :: bool
  rafPending :: bool
  video :: "byte list ImageData"
  canvas :: dcanvas
  offscreen :: "byte list ImageData"
  inflight :: "pending list"

definition init :: state where
  "init = \<lparr>modelStatus = Idle, running = False, runningRef = False, videoReadyRef = False,
            enhanceRef = EnhanceGamma, bgImageRef = None, segmenterRef = False,
            rafPending = False,
            video = \<lparr>width = 0, height = 0, data = []\<rparr>,
            canvas = reset_canvas 1280 720,
            offscreen = \<lparr>width = 1280, height = 720, data = replicate (4 * 1280 * 720) 0\<rparr>,
            inflight = []\<rparr>"

text \<open>The gate of the specification.\<close>

definition canRun :: "state \<Rightarrow> bool" where
  "canRun st \<longleftrightarrow> modelStatus st = Ready \<and> videoReadyRef st \<and> running st"

text \<open>
  The effect with dependencies \<open>[modelStatus, running]\<close>: React runs the cleanup of its
  previous run (\<open>cancelAnimationFrame\<close>), then the body, which returns early unless the
  three conditions hold and schedules \<open>loop\<close> otherwise.
\<close>

definition loop_effect :: "state \<Rightarrow> state" where
  "loop_effect st =
     (let st' = st\<lparr>rafPending := False\<rparr>
      in if modelStatus st' \<noteq> Ready \<or> \<not> videoReadyRef st' \<or> \<not> running st' then st'
         else st'\<lparr>rafPending := True\<rparr>)"

text \<open>
  \<open>processFrame\<close> up to the call of the segmenter (lines 174 to 206). Assigning
  \<open>canvas.width\<close> and \<open>canvas.height\<close> resets the displayed canvas; the off-screen canvas
  receives the video frame and, in gamma mode, its enhanced pixels. \<open>getImageData\<close>
  throwing inside the enhancement leaves the off-screen canvas as drawn.
\<close>

definition processFrame :: "(nat \<Rightarrow> byte) \<Rightarrow> scaler \<Rightarrow> state \<Rightarrow> state" where
  "processFrame curve sc st =
     (if \<not> runningRef st then st
      else if \<not> segmenterRef st \<or> width (video st) = 0 then st
      else
        let w = width (video st); h = height (video st);
            off = drawImage_blank sc (video st) w h;
            off' = (if enhanceRef st = EnhanceGamma
                    then (case getImageData off w h of
                            Inl e \<Rightarrow> off
                          | Inr ident \<Rightarrow> enhanceGamma curve ident)
                    else off)
        in st\<lparr>canvas := reset_canvas w h, offscreen := off',
               inflight := inflight st @ [\<lparr>pwidth = w, pheight = h\<rparr>]\<rparr>)"

text \<open>
  What the awaited segmenter call and the extraction of the mask end in: an exception,
  no segmentation, no mask image, or a mask image.
\<close>

datatype outcome = Threw | NoSegmentation | NoMask | Mask "byte list ImageData"

text \<open>
  The rest of the cycle (lines 207 to 302), run when the awaited calls settle. Every
  exception is caught and logged; the frame, the background and the canvas are the
  ones of that moment.
\<close>

definition resolve :: "scaler \<Rightarrow> pending \<Rightarrow> outcome \<Rightarrow> state \<Rightarrow> state" where
  "resolve sc p oc st =
     (case oc of
        Threw \<Rightarrow> st
      | NoSegmentation \<Rightarrow> st
      | NoMask \<Rightarrow> st
      | Mask maskImageData \<Rightarrow>
          (case reconcileMask sc maskImageData (pwidth p) (pheight p) of
             Inl e \<Rightarrow> st
           | Inr finalMask \<Rightarrow>
               st\<lparr>canvas := composite sc (bgImageRef st) (video st) finalMask
                                (pwidth p) (pheight p) (canvas st)\<rparr>))"

datatype event =
    InitModel | ModelLoaded | ModelFailed
  | LoadedData | NewFrame "byte list ImageData"
  | Click | SetEnhance EnhanceMode
  | BgLoaded "byte list ImageData" | BgFailed
  | Tick | Resolve nat outcome

text \<open>
  One event of the browser. The Start/Stop button is disabled unless the model is
  ready; a click toggles \<open>running\<close>, after which the effects copy it to \<open>runningRef\<close> and
  re-run the loop effect. \<open>loadeddata\<close> only sets \<open>videoReadyRef\<close>: a ref is no
  dependency and causes no render. \<open>Tick\<close> is an animation frame: the scheduled \<open>loop\<close>
  calls \<open>processFrame\<close> and schedules itself again. \<open>Resolve n\<close> settles the \<open>n\<close>-th
  cycle in flight.
\<close>

definition step :: "(nat \<Rightarrow> byte) \<Rightarrow> scaler \<Rightarrow> state \<Rightarrow> event \<Rightarrow> state" where
  "step curve sc st ev =
     (case ev of
        InitModel \<Rightarrow>
          (if modelStatus st = Idle then loop_effect (st\<lparr>modelStatus := Loading\<rparr>) else st)
      | ModelLoaded \<Rightarrow>
          (if modelStatus st = Loading
           then loop_effect (st\<lparr>segmenterRef := True, modelStatus := Ready\<rparr>) else st)
      | ModelFailed \<Rightarrow>
          (if modelStatus st = Loading then loop_effect (st\<lparr>modelStatus := Error\<rparr>) else st)
      | LoadedData \<Rightarrow> st\<lparr>videoReadyRef := True\<rparr>
      | NewFrame f \<Rightarrow> st\<lparr>video := f\<rparr>
      | Click \<Rightarrow>
          (if modelStatus st = Ready
           then loop_effect (st\<lparr>running := \<not> running st, runningRef := \<not> running st\<rparr>)
           else st)
      | SetEnhance m \<Rightarrow> st\<lparr>enhanceRef := m\<rparr>
      | BgLoaded img \<Rightarrow> st\<lparr>bgImageRef := Some img\<rparr>
      | BgFailed \<Rightarrow> st\<lparr>bgImageRef := None\<rparr>
      | Tick \<Rightarrow> (if rafPending st then processFrame curve sc st else st)
      | Resolve n oc \<Rightarrow>
          (if n < length (inflight st)
           then resolve sc (inflight st ! n) oc
                  (st\<lparr>inflight := take n (inflight st) @ drop (Suc n) (inflight st)\<rparr>)
           else st))"

definition run :: "(nat \<Rightarrow> byte) \<Rightarrow> scaler \<Rightarrow> state \<Rightarrow> event list \<Rightarrow> state" where
  "run curve sc st evs = foldl (step curve sc) st evs"

section \<open>Properties of blurMask\<close>

lemma length_blur_px: "length (blur_px w h tmp r p out) = length out"
  by (simp add: blur_px_def Let_def split: prod.split)

lemma length_fold_blur_px: "length (fold (blur_px w h tmp r) ps out) = length out"
  by (induction ps arbitrary: out) (simp_all add: length_blur_px)

lemma blur_px_nth:
  assumes "k < length out" "x < w"
  shows "blur_px w h tmp r (y, x) out ! k =
           (if k div 4 = y * w + x then (if k mod 4 = 3 then px_val w h tmp r (y * w + x) else 0)
            else out ! k)"
proof -
  define i where "i = y * w + x"
  define pv where "pv = px_val w h tmp r i"
  have b: "blur_px w h tmp r (y, x) out = out[i * 4 + 2 := 0, i * 4 + 1 := 0, i * 4 := 0, i * 4 + 3 := pv]"
    using assms(2) by (simp add: blur_px_def Let_def px_val_def i_def pv_def)
  have n: "out[i * 4 + 2 := 0, i * 4 + 1 := 0, i * 4 := 0, i * 4 + 3 := pv] ! k =
             (if k = i * 4 + 3 then pv
              else if k = i * 4 \<or> k = i * 4 + 1 \<or> k = i * 4 + 2 then 0 else out ! k)"
    using assms(1) by (simp add: nth_list_update)
  have d: "k div 4 = i \<longleftrightarrow> k = i * 4 \<or> k = i * 4 + 1 \<or> k = i * 4 + 2 \<or> k = i * 4 + 3"
    by linarith
  have m: "k = i * 4 + 3 \<Longrightarrow> k mod 4 = 3" "k = i * 4 \<or> k = i * 4 + 1 \<or> k = i * 4 + 2 \<Longrightarrow> k mod 4 \<noteq> 3"
    by presburger+
  show ?thesis
    unfolding b n i_def [symmetric] pv_def [symmetric] d using m by auto
qed

lemma fold_blur_px_nth:
  assumes "k < length out" "\<forall>(y, x) \<in> set ps. x < w"
  shows "fold (blur_px w h tmp r) ps out ! k =
           (if \<exists>(y, x) \<in> set ps. k div 4 = y * w + x
            then (if k mod 4 = 3 then px_val w h tmp r (k div 4) else 0)
            else out ! k)"
  using assms
proof (induction ps arbitrary: out)
  case Nil
  then show ?case by simp
next
  case (Cons p ps)
  obtain y x where p: "p = (y, x)" by (cases p)
  have xw: "x < w" using Cons.prems(2) p by simp
  have len: "k < length (blur_px w h tmp r p out)" using Cons.prems(1) by (simp add: length_blur_px)
  have rest: "\<forall>(y, x) \<in> set ps. x < w" using Cons.prems(2) by simp
  show ?case
    using Cons.IH [OF len rest] blur_px_nth [OF Cons.prems(1) xw, of h tmp r y]
    by (auto simp: p)
qed

lemma distinct_window: "distinct (window w h r x y)"
  by (simp add: window_def distinct_product)

lemma distinct_window_cells: "distinct (window_cells w h r x y)"
  by (simp add: window_cells_def distinct_product)

lemma set_window:
  "set (window w h r x y) =
     {max 0 (int y - r) .. min (int h - 1) (int y + r)} \<times> {max 0 (int x - r) .. min (int w - 1) (int x + r)}"
  by (simp add: window_def)

lemma set_window_cells:
  "set (window_cells w h r x y) =
     {(xx, yy). xx < w \<and> yy < h \<and> \<bar>int xx - int x\<bar> \<le> r \<and> \<bar>int yy - int y\<bar> \<le> r}"
  by (auto simp: window_cells_def)

lemma window_index:
  assumes "(yy, xx) \<in> set (window w h r x y)"
  shows "nat (yy * int w + xx) = nat yy * w + nat xx" "nat xx < w" "nat yy < h" "0 \<le> xx" "0 \<le> yy"
proof -
  from assms show b: "0 \<le> xx" "0 \<le> yy" "nat xx < w" "nat yy < h"
    by (auto simp: set_window)
  then show "nat (yy * int w + xx) = nat yy * w + nat xx"
    by (simp add: nat_add_distrib nat_mult_distrib)
qed

lemma cell_index: "xx < w \<Longrightarrow> yy < h \<Longrightarrow> yy * w + xx < w * (h::nat)"
proof -
  assume a: "xx < w" "yy < h"
  then have "yy * w + xx < yy * w + w" by simp
  also have "\<dots> = Suc yy * w" by simp
  also have "\<dots> \<le> h * w" using a(2) by (intro mult_le_mono1) simp
  finally show ?thesis by (simp add: mult.commute)
qed

lemma alpha_plane_nth:
  assumes "wf_image im" "xx < width im" "yy < height im"
  shows "alpha_plane (width im) (height im) (data im) ! (yy * width im + xx) = alpha_at im xx yy"
proof -
  have k: "yy * width im + xx < width im * height im" using assms(2,3) by (rule cell_index)
  then have "(yy * width im + xx) * 4 + 3 < length (data im)"
    using assms(1) by (simp add: wf_image_def)
  then show ?thesis using k by (simp add: alpha_plane_def rd_def alpha_at_def)
qed

lemma window_reindex:
  fixes g :: "nat \<Rightarrow> nat \<Rightarrow> nat"
  shows "(\<Sum>(yy, xx) \<in> set (window w h r x y). g (nat xx) (nat yy)) =
         (\<Sum>(xx, yy) \<in> set (window_cells w h r x y). g xx yy)"
proof (rule sum.reindex_bij_witness [where i = "\<lambda>(xx, yy). (int yy, int xx)" and j = "\<lambda>(yy, xx). (nat xx, nat yy)"])
  fix a assume "a \<in> set (window w h r x y)"
  then show "(case (case a of (yy, xx) \<Rightarrow> (nat xx, nat yy)) of (xx, yy) \<Rightarrow> (int yy, int xx)) = a"
    by (auto simp: set_window)
  from \<open>a \<in> set (window w h r x y)\<close> show "(case a of (yy, xx) \<Rightarrow> (nat xx, nat yy)) \<in> set (window_cells w h r x y)"
    by (auto simp: set_window set_window_cells)
  show "(case (case a of (yy, xx) \<Rightarrow> (nat xx, nat yy)) of (xx, yy) \<Rightarrow> g xx yy) = (case a of (yy, xx) \<Rightarrow> g (nat xx) (nat yy))"
    by (auto split: prod.split)
next
  fix b assume "b \<in> set (window_cells w h r x y)"
  then show "(case (case b of (xx, yy) \<Rightarrow> (int yy, int xx)) of (yy, xx) \<Rightarrow> (nat xx, nat yy)) = b"
    by (auto split: prod.split)
  from \<open>b \<in> set (window_cells w h r x y)\<close> show "(case b of (xx, yy) \<Rightarrow> (int yy, int xx)) \<in> set (window w h r x y)"
    by (auto simp: set_window set_window_cells)
qed


lemma window_sum_cells:
  assumes "wf_image im"
  shows "window_sum (width im) (height im) (alpha_plane (width im) (height im) (data im)) r x y =
           sum_list (map (\<lambda>(xx, yy). alpha_at im xx yy) (window_cells (width im) (height im) r x y))"
proof -
  let ?w = "width im" and ?h = "height im"
  let ?tmp = "alpha_plane ?w ?h (data im)"
  have "window_sum ?w ?h ?tmp r x y = (\<Sum>(yy, xx) \<in> set (window ?w ?h r x y). ?tmp ! nat (yy * int ?w + xx))"
    by (simp add: window_sum_def sum_list_distinct_conv_sum_set distinct_window)
  also have "\<dots> = (\<Sum>(yy, xx) \<in> set (window ?w ?h r x y). alpha_at im (nat xx) (nat yy))"
  proof (rule sum.cong [OF refl])
    fix p assume p: "p \<in> set (window ?w ?h r x y)"
    obtain yy xx where q: "p = (yy, xx)" by (cases p)
    from p q have i: "(yy, xx) \<in> set (window ?w ?h r x y)" by simp
    show "(case p of (yy, xx) \<Rightarrow> ?tmp ! nat (yy * int ?w + xx)) = (case p of (yy, xx) \<Rightarrow> alpha_at im (nat xx) (nat yy))"
      using alpha_plane_nth [OF assms window_index(2,3) [OF i]] window_index(1) [OF i]
      by (simp add: q)
  qed
  also have "\<dots> = (\<Sum>(xx, yy) \<in> set (window_cells ?w ?h r x y). alpha_at im xx yy)"
    by (rule window_reindex)
  also have "\<dots> = sum_list (map (\<lambda>(xx, yy). alpha_at im xx yy) (window_cells ?w ?h r x y))"
    by (simp add: sum_list_distinct_conv_sum_set distinct_window_cells)
  finally show ?thesis .
qed

lemma window_cnt_cells: "window_cnt w h r x y = length (window_cells w h r x y)"
proof -
  have "window_cnt w h r x y = (\<Sum>(yy, xx) \<in> set (window w h r x y). (\<lambda>_ _. 1::nat) (nat xx) (nat yy))"
    by (simp add: window_cnt_def distinct_card [OF distinct_window])
  also have "\<dots> = (\<Sum>(xx, yy) \<in> set (window_cells w h r x y). (\<lambda>_ _. 1::nat) xx yy)"
    by (rule window_reindex)
  also have "\<dots> = length (window_cells w h r x y)"
    by (simp add: distinct_card [OF distinct_window_cells])
  finally show ?thesis .
qed

lemma window_cnt_pos:
  assumes "0 \<le> r" "x < w" "y < h"
  shows "0 < window_cnt w h r x y"
proof -
  have "(x, y) \<in> set (window_cells w h r x y)"
    using assms by (simp add: set_window_cells)
  then have "window_cells w h r x y \<noteq> []" by auto
  then show ?thesis by (simp add: window_cnt_cells)
qed

lemma alpha_at_le: "alpha_at im x y \<le> 255"
proof -
  have "unat (b :: byte) < 2 ^ LENGTH(8)" for b by (rule unsigned_less)
  then have "unat (b :: byte) < 256" for b by simp
  then show ?thesis unfolding alpha_at_def by (simp add: less_Suc_eq_le [symmetric])
qed

lemma sum_list_bound:
  fixes f :: "'a \<Rightarrow> nat"
  assumes "\<And>a. a \<in> set xs \<Longrightarrow> f a \<le> c"
  shows "sum_list (map f xs) \<le> c * length xs"
  using assms by (induction xs) (auto simp: add_mono)

lemma window_sum_le:
  assumes "wf_image im"
  shows "window_sum (width im) (height im) (alpha_plane (width im) (height im) (data im)) r x y
           \<le> 255 * window_cnt (width im) (height im) r x y"
  unfolding window_sum_cells [OF assms] window_cnt_cells
  by (rule sum_list_bound) (auto simp: alpha_at_le)

lemma unat_to_u8c:
  assumes "0 < c" "s \<le> 255 * c"
  shows "unat (to_u8c (round_div s c)) = (2 * s + c) div (2 * c)"
proof -
  have "2 * s + c < 256 * (2 * c)" using assms by simp
  then have "(2 * s + c) div (2 * c) < 256" using assms(1) by (simp add: less_mult_imp_div_less)
  then show ?thesis using assms(1)
    by (simp add: to_u8c_def round_div_def unat_of_nat)
qed

lemma round_half_up_quot:
  assumes "0 < c"
  shows "round_half_up (of_nat s / of_nat c) = int ((2 * s + c) div (2 * c))"
proof -
  have "(of_nat s / of_nat c + 1 / 2 :: rat) = of_int (int (2 * s + c)) / of_int (int (2 * c))"
    using assms by (simp add: field_simps)
  then show ?thesis
    unfolding round_half_up_def by (simp only: floor_divide_of_int_eq zdiv_int)
qed

lemma blurMask_wf:
  assumes "wf_image im"
  shows "blurMask im r = Inr \<lparr>width = width im, height = height im,
           data = fold (blur_px (width im) (height im) (alpha_plane (width im) (height im) (data im)) r)
                    (List.product [0..<height im] [0..<width im]) (replicate (length (data im)) 0)\<rparr>"
proof -
  let ?out = "fold (blur_px (width im) (height im) (alpha_plane (width im) (height im) (data im)) r)
                (List.product [0..<height im] [0..<width im]) (replicate (length (data im)) 0)"
  have len: "length ?out = 4 * width im * height im"
    using assms by (simp add: length_fold_blur_px wf_image_def)
  moreover have "0 < 4 * width im * height im" using assms by (simp add: wf_image_def)
  ultimately have ne: "?out \<noteq> []" by (metis length_0_conv less_numeral_extra(3))
  have m: "length ?out mod 4 = 0" unfolding len by (simp add: mult.assoc)
  show ?thesis
    using assms ne m len by (simp add: blurMask_def Let_def new_ImageData_def wf_image_def)
qed

lemma pixel_visited:
  assumes "x < w" "y < h" "j < 4"
  shows "\<exists>(y', x') \<in> set (List.product [0..<h] [0..<w]). ((y * w + x) * 4 + j) div 4 = y' * w + x'"
  using assms by (intro bexI [where x = "(y, x)"]) auto

lemma blurMask_alpha:
  assumes "wf_image im" "x < width im" "y < height im"
  shows "\<exists>out. blurMask im r = Inr out \<and> width out = width im \<and> height out = height im \<and>
           wf_image out \<and>
           alpha_at out x y =
             unat (px_val (width im) (height im) (alpha_plane (width im) (height im) (data im)) r (y * width im + x))"
proof -
  let ?w = "width im" and ?h = "height im"
  let ?tmp = "alpha_plane ?w ?h (data im)"
  let ?ps = "List.product [0..<?h] [0..<?w]"
  let ?out = "fold (blur_px ?w ?h ?tmp r) ?ps (replicate (length (data im)) 0)"
  let ?k = "(y * ?w + x) * 4 + 3"
  have "y * ?w + x < ?w * ?h" using assms(2,3) by (rule cell_index)
  then have k: "?k < length (replicate (length (data im)) (0::byte))"
    using assms(1) by (simp add: wf_image_def)
  have xs: "\<forall>(y, x) \<in> set ?ps. x < ?w" by auto
  have v: "\<exists>(y', x') \<in> set ?ps. ?k div 4 = y' * ?w + x'"
    using pixel_visited [OF assms(2,3), of 3] by simp
  have d: "?k div 4 = y * ?w + x" "?k mod 4 = 3" by presburger+
  have "?out ! ?k = px_val ?w ?h ?tmp r (y * ?w + x)"
    unfolding fold_blur_px_nth [OF k xs] using v d by simp
  moreover have "wf_image \<lparr>width = ?w, height = ?h, data = ?out\<rparr>"
    using assms(1) by (simp add: wf_image_def length_fold_blur_px)
  ultimately show ?thesis
    unfolding blurMask_wf [OF assms(1)] by (simp add: alpha_at_def)
qed


lemma blurMask_alpha_value:
  assumes "wf_image im" "0 \<le> r" "x < width im" "y < height im"
  shows "\<exists>out. blurMask im r = Inr out \<and> width out = width im \<and> height out = height im \<and>
           alpha_at out x y =
             (2 * cells_sum im r x y + length (window_cells (width im) (height im) r x y))
               div (2 * length (window_cells (width im) (height im) r x y))"
proof -
  let ?w = "width im" and ?h = "height im"
  let ?tmp = "alpha_plane ?w ?h (data im)"
  have m: "(y * ?w + x) mod ?w = x" "(y * ?w + x) div ?w = y" using assms(3) by simp_all
  have c: "0 < window_cnt ?w ?h r x y" using assms(2-4) by (rule window_cnt_pos)
  have "unat (px_val ?w ?h ?tmp r (y * ?w + x)) =
          (2 * window_sum ?w ?h ?tmp r x y + window_cnt ?w ?h r x y) div (2 * window_cnt ?w ?h r x y)"
    unfolding px_val_def m by (rule unat_to_u8c [OF c window_sum_le [OF assms(1)]])
  then show ?thesis
    using blurMask_alpha [OF assms(1,3,4), of r]
    unfolding window_sum_cells [OF assms(1)] window_cnt_cells cells_sum_def by auto
qed

lemma window_cells_0:
  assumes "x < w" "y < h"
  shows "set (window_cells w h 0 x y) = {(x, y)}"
  using assms by (auto simp: set_window_cells)

lemma cells_0:
  assumes "x < width im" "y < height im"
  shows "cells_sum im 0 x y = alpha_at im x y" "length (window_cells (width im) (height im) 0 x y) = 1"
proof -
  have "cells_sum im 0 x y = (\<Sum>(xx, yy) \<in> set (window_cells (width im) (height im) 0 x y). alpha_at im xx yy)"
    by (simp add: cells_sum_def sum_list_distinct_conv_sum_set distinct_window_cells)
  then show "cells_sum im 0 x y = alpha_at im x y"
    by (simp add: window_cells_0 [OF assms])
  have "length (window_cells (width im) (height im) 0 x y) = card (set (window_cells (width im) (height im) 0 x y))"
    by (simp add: distinct_card [OF distinct_window_cells])
  then show "length (window_cells (width im) (height im) 0 x y) = 1"
    by (simp add: window_cells_0 [OF assms])
qed

text \<open>
  C9, as amended. For every well-formed buffer, every radius \<open>r \<ge> 0\<close> and every pixel
  \<open>(x, y)\<close>, \<open>blurMask\<close> returns a buffer of the same dimensions whose alpha at
  \<open>(x, y)\<close> is the unweighted mean of the alpha values of the in-bounds pixels of the
  window of side \<open>2 * r + 1\<close> centred on it, the divisor being the number of those
  pixels, rounded to the nearest integer with halves upwards; with radius 0 the output
  alpha equals the input alpha.
\<close>

theorem blurMask_rounded_mean:
  assumes "wf_image im" "0 \<le> r" "x < width im" "y < height im"
  shows "(\<exists>out. blurMask im r = Inr out \<and> width out = width im \<and> height out = height im \<and>
            int (alpha_at out x y) = round_half_up (window_mean im r x y)) \<and>
         (\<exists>out. blurMask im 0 = Inr out \<and> width out = width im \<and> height out = height im \<and>
            alpha_at out x y = alpha_at im x y)"
proof
  have c: "0 < length (window_cells (width im) (height im) r x y)"
    using window_cnt_pos [OF assms(2-4)] by (simp add: window_cnt_cells)
  have "round_half_up (window_mean im r x y) =
          int ((2 * cells_sum im r x y + length (window_cells (width im) (height im) r x y))
               div (2 * length (window_cells (width im) (height im) r x y)))"
    unfolding window_mean_def cells_sum_def [symmetric] by (rule round_half_up_quot [OF c])
  then show "\<exists>out. blurMask im r = Inr out \<and> width out = width im \<and> height out = height im \<and>
            int (alpha_at out x y) = round_half_up (window_mean im r x y)"
    using blurMask_alpha_value [OF assms] by auto
next
  show "\<exists>out. blurMask im 0 = Inr out \<and> width out = width im \<and> height out = height im \<and>
            alpha_at out x y = alpha_at im x y"
    using blurMask_alpha_value [OF assms(1) order_refl assms(3,4)]
    unfolding cells_0 [OF assms(3,4)] by simp
qed

theorem blurMask_rounded_mean_witness:
  "wf_image \<lparr>width = 2, height = 2, data = [0,0,0,10, 9,9,9,20, 1,1,1,30, 1,1,1,255]\<rparr> \<and>
   (\<exists>out. blurMask \<lparr>width = 2, height = 2, data = [0,0,0,10, 9,9,9,20, 1,1,1,30, 1,1,1,255]\<rparr> 1 = Inr out \<and>
      int (alpha_at out 1 0) =
        round_half_up (window_mean \<lparr>width = 2, height = 2, data = [0,0,0,10, 9,9,9,20, 1,1,1,30, 1,1,1,255]\<rparr> 1 1 0))"
proof -
  let ?im = "\<lparr>width = 2, height = 2, data = [0,0,0,10, 9,9,9,20, 1,1,1,30, 1,1,1,255 :: byte]\<rparr>"
  have w: "wf_image ?im" by (simp add: wf_image_def)
  have r: "(0::int) \<le> 1" by simp
  have x: "1 < width ?im" and y: "0 < height ?im" by simp_all
  from blurMask_rounded_mean [OF w r x y] w show ?thesis by blast
qed

text \<open>
  C9, as stated, asks for the mean itself. On the 2 by 1 buffer with alphas 0 and 1 and
  radius 1 the window of pixel \<open>(0, 0)\<close> holds both pixels: their mean is \<open>1 / 2\<close>,
  and \<open>Math.round\<close> makes the stored alpha 1.
\<close>

theorem blurMask_exact_mean_counterexample:
  "blurMask \<lparr>width = 2, height = 1, data = [0,0,0,0, 0,0,0,1]\<rparr> 1 =
     Inr \<lparr>width = 2, height = 1, data = [0,0,0,1, 0,0,0,1]\<rparr> \<and>
   alpha_at \<lparr>width = 2, height = 1, data = [0,0,0,1, 0,0,0,1]\<rparr> 0 0 = 1 \<and>
   window_mean \<lparr>width = 2, height = 1, data = [0,0,0,0, 0,0,0,1]\<rparr> 1 0 0 = 1 / 2"
  by code_simp

lemma fold_blur_px_heap:
  assumes "out < length hp"
  shows "fold (blur_px_heap w h tmp r out) ps hp = hp[out := fold (blur_px w h tmp r) ps (hp ! out)]"
  using assms
proof (induction ps arbitrary: hp)
  case Nil
  then show ?case by simp
next
  case (Cons p ps)
  then show ?case by (simp add: blur_px_heap_def)
qed

lemma fold_blur_px_rgb:
  assumes "k < n" "k mod 4 \<noteq> 3" "\<forall>(y, x) \<in> set ps. x < w"
  shows "fold (blur_px w h tmp r) ps (replicate n 0) ! k = 0"
proof -
  have "k < length (replicate n (0::byte))" using assms(1) by simp
  from fold_blur_px_nth [OF this assms(3)] show ?thesis using assms(1,2) by simp
qed

text \<open>
  C10. \<open>blurMask\<close> never mutates its input: for every store, every image whose buffer is
  in the store and every radius, each array of the store before the call, the input's
  buffer among them, is the same after it; the returned image has the same width and
  height, its buffer is a newly allocated array (its address is none of the old store)
  and every colour byte of it is zero. The buffer holds what \<open>blurMask\<close> on values
  computes.
\<close>

theorem blurMask_heap_fresh_output:
  assumes "data im < length hp" "wf_image (deref hp im)"
  shows "\<exists>hp' out. blurMask_heap hp im r = (hp', Inr out) \<and>
           (\<forall>a < length hp. hp' ! a = hp ! a) \<and>
           data out = length hp \<and> length hp' = Suc (length hp) \<and>
           width out = width im \<and> height out = height im \<and>
           length (hp' ! data out) = 4 * width im * height im \<and>
           (\<forall>k < length (hp' ! data out). k mod 4 \<noteq> 3 \<longrightarrow> hp' ! data out ! k = 0) \<and>
           blurMask (deref hp im) r = Inr (deref hp' out)"
proof -
  let ?w = "width im" and ?h = "height im" and ?d = "hp ! data im"
  let ?o = "length hp"
  let ?hp1 = "hp @ [replicate (length ?d) 0]"
  let ?ps = "List.product [0..<?h] [0..<?w]"
  let ?tmp = "alpha_plane ?w ?h ?d"
  let ?arr = "fold (blur_px ?w ?h ?tmp r) ?ps (replicate (length ?d) 0)"
  let ?hp2 = "?hp1[?o := ?arr]"
  have wf: "0 < ?w" "0 < ?h" "length ?d = 4 * ?w * ?h"
    using assms(2) by (simp_all add: wf_image_def deref_def)
  have d1: "?hp1 ! data im = ?d" using assms(1) by (simp add: nth_append)
  have "fold (blur_px_heap ?w ?h ?tmp r ?o) ?ps ?hp1 = ?hp1[?o := fold (blur_px ?w ?h ?tmp r) ?ps (?hp1 ! ?o)]"
    by (rule fold_blur_px_heap) simp
  then have f: "fold (blur_px_heap ?w ?h ?tmp r ?o) ?ps ?hp1 = ?hp2" by simp
  have o: "?hp2 ! ?o = ?arr" by simp
  have len: "length ?arr = 4 * ?w * ?h" by (simp add: length_fold_blur_px wf)
  have v: "blurMask (deref hp im) r = Inr \<lparr>width = ?w, height = ?h, data = ?arr\<rparr>"
    using blurMask_wf [OF assms(2), of r] by (simp add: deref_def)
  then have n: "new_ImageData ?arr ?w ?h = Inr \<lparr>width = ?w, height = ?h, data = ?arr\<rparr>"
    by (simp add: blurMask_def Let_def deref_def)
  have b: "blurMask_heap hp im r = (?hp2, Inr \<lparr>width = ?w, height = ?h, data = ?o\<rparr>)"
    unfolding blurMask_heap_def Let_def alloc_u8c_def prod.case d1 f new_ImageData_heap_def o n
    by simp
  have keep: "\<forall>a < length hp. ?hp2 ! a = hp ! a" by (simp add: nth_append)
  have rgb: "\<forall>k < length (?hp2 ! ?o). k mod 4 \<noteq> 3 \<longrightarrow> ?hp2 ! ?o ! k = 0"
  proof (intro allI impI)
    fix k assume k: "k < length (?hp2 ! ?o)" "k mod 4 \<noteq> 3"
    have xs: "\<forall>(y, x) \<in> set ?ps. x < ?w" by auto
    from k(1) have "k < length ?d" by (simp add: length_fold_blur_px)
    from fold_blur_px_rgb [OF this k(2) xs] show "?hp2 ! ?o ! k = 0" by simp
  qed
  show ?thesis
    using b keep rgb len v by (simp add: deref_def)
qed

theorem blurMask_heap_fresh_output_witness:
  "data \<lparr>width = 2, height = 1, data = 0::nat\<rparr> < length [[1,2,3,4, 5,6,7,8 :: byte]] \<and>
   wf_image (deref [[1,2,3,4, 5,6,7,8]] \<lparr>width = 2, height = 1, data = 0\<rparr>) \<and>
   (\<exists>hp' out. blurMask_heap [[1,2,3,4, 5,6,7,8]] \<lparr>width = 2, height = 1, data = 0\<rparr> 1 = (hp', Inr out) \<and>
      (\<forall>a < length [[1,2,3,4, 5,6,7,8 :: byte]]. hp' ! a = [[1,2,3,4, 5,6,7,8]] ! a) \<and>
      data out = length [[1,2,3,4, 5,6,7,8 :: byte]] \<and>
      (\<forall>k < length (hp' ! data out). k mod 4 \<noteq> 3 \<longrightarrow> hp' ! data out ! k = 0))"
proof -
  let ?hp = "[[1,2,3,4, 5,6,7,8 :: byte]]"
  let ?im = "\<lparr>width = 2, height = 1, data = 0::nat\<rparr>"
  have a: "data ?im < length ?hp" by simp
  have w: "wf_image (deref ?hp ?im)" by (simp add: wf_image_def deref_def)
  from blurMask_heap_fresh_output [OF a w, of 1] a w show ?thesis by blast
qed

section \<open>Properties of the canvas pipeline\<close>

lemma quad_index:
  fixes k w h :: nat
  assumes "k < 4 * w * h"
  shows "(k div 4) mod w < w" "(k div 4) div w < h"
    "(((k div 4) div w) * w + (k div 4) mod w) * 4 + k mod 4 = k"
proof -
  have kd: "k div 4 < w * h" using assms by (simp add: less_mult_imp_div_less mult.commute mult.left_commute)
  then have w: "0 < w" by (cases w) simp_all
  then show "(k div 4) mod w < w" by simp
  show "(k div 4) div w < h" using kd w by (simp add: less_mult_imp_div_less mult.commute)
  have "((k div 4) div w) * w + (k div 4) mod w = k div 4" by simp
  then show "(((k div 4) div w) * w + (k div 4) mod w) * 4 + k mod 4 = k" by simp
qed

lemma getImageData_id:
  assumes "wf_image cv" "width cv = w" "height cv = h"
  shows "getImageData cv w h = Inr cv"
proof -
  have len: "length (data cv) = 4 * w * h" and pos: "0 < w" "0 < h"
    using assms by (simp_all add: wf_image_def)
  have "map (\<lambda>k. let x = (k div 4) mod w; y = (k div 4) div w
                 in if x < width cv \<and> y < height cv
                    then bt (data cv) ((y * width cv + x) * 4 + k mod 4) else 0) [0..<4 * w * h] = data cv"
  proof (rule nth_equalityI)
    show "length (map (\<lambda>k. let x = (k div 4) mod w; y = (k div 4) div w
                 in if x < width cv \<and> y < height cv
                    then bt (data cv) ((y * width cv + x) * 4 + k mod 4) else 0) [0..<4 * w * h]) = length (data cv)"
      by (simp add: len)
  next
    fix k assume "k < length (map (\<lambda>k. let x = (k div 4) mod w; y = (k div 4) div w
                 in if x < width cv \<and> y < height cv
                    then bt (data cv) ((y * width cv + x) * 4 + k mod 4) else 0) [0..<4 * w * h])"
    then have k: "k < 4 * w * h" by simp
    show "map (\<lambda>k. let x = (k div 4) mod w; y = (k div 4) div w
                 in if x < width cv \<and> y < height cv
                    then bt (data cv) ((y * width cv + x) * 4 + k mod 4) else 0) [0..<4 * w * h] ! k = data cv ! k"
      using k quad_index [OF k] by (simp add: assms(2,3) Let_def bt_def len)
  qed
  then show ?thesis using pos assms(2,3) by (simp add: getImageData_def)
qed

lemma channel_pixel_at:
  assumes "j < 4"
  shows "channel (pixel_at im x y) j = bt (data im) ((y * width im + x) * 4 + j)"
proof -
  from assms consider "j = 0" | "j = 1" | "j = 2" | "j = 3" by linarith
  then show ?thesis
    by cases (simp_all add: channel_def pixel_at_def Let_def numeral_2_eq_2 numeral_3_eq_3)
qed

lemma drawImage_blank_id:
  assumes "wf_image img" "width img = w" "height img = h"
  shows "drawImage_blank sc img w h = img"
proof -
  have len: "length (data img) = 4 * w * h"
    using assms by (simp add: wf_image_def)
  let ?f = "\<lambda>k. case placed sc img (0, 0, of_nat w, of_nat h) ((k div 4) mod w) ((k div 4) div w) of
                        None \<Rightarrow> 0
                      | Some p \<Rightarrow> channel p (k mod 4)"
  have "map ?f [0..<4 * w * h] = data img"
  proof (rule nth_equalityI)
    show "length (map ?f [0..<4 * w * h]) = length (data img)" by (simp add: len)
  next
    fix k assume "k < length (map ?f [0..<4 * w * h])"
    then have k: "k < 4 * w * h" by simp
    have "?f k = channel (pixel_at img ((k div 4) mod w) ((k div 4) div w)) (k mod 4)"
      using quad_index(1,2) [OF k] by (simp add: placed_def assms(2,3))
    also have "\<dots> = data img ! k"
      using quad_index(3) [OF k] k by (simp add: channel_pixel_at assms(2) bt_def len)
    finally show "map ?f [0..<4 * w * h] ! k = data img ! k"
      using nth_map_upt [of k "4 * w * h" 0 ?f] k by (simp only: diff_zero add_0)
  qed
  then show ?thesis using assms(2,3) by (simp add: drawImage_blank_def)
qed





lemma length_compose_px: "length (compose_px v m i out) = length out"
  by (simp add: compose_px_def Let_def)

lemma compose_px_nth:
  assumes "k < length out"
  shows "compose_px v m i out ! k =
           (if k div 4 = i then (if k mod 4 = 3 then bt m k else bt v k) else out ! k)"
proof -
  have n: "compose_px v m i out ! k =
             (if k = i * 4 + 3 then bt m (i * 4 + 3)
              else if k = i * 4 + 2 then bt v (i * 4 + 2)
              else if k = i * 4 + 1 then bt v (i * 4 + 1)
              else if k = i * 4 then bt v (i * 4) else out ! k)"
    using assms by (simp add: compose_px_def Let_def nth_list_update)
  have d: "k div 4 = i \<longleftrightarrow> k = i * 4 \<or> k = i * 4 + 1 \<or> k = i * 4 + 2 \<or> k = i * 4 + 3"
    by linarith
  have m: "k = i * 4 + 3 \<Longrightarrow> k mod 4 = 3" "k = i * 4 \<or> k = i * 4 + 1 \<or> k = i * 4 + 2 \<Longrightarrow> k mod 4 \<noteq> 3"
    by presburger+
  show ?thesis unfolding n d using m by auto
qed

lemma fold_compose_px_nth:
  assumes "k < length out"
  shows "fold (compose_px v m) is out ! k =
           (if k div 4 \<in> set is then (if k mod 4 = 3 then bt m k else bt v k) else out ! k)"
  using assms
proof (induction "is" arbitrary: out)
  case Nil
  then show ?case by simp
next
  case (Cons i "is")
  have len: "k < length (compose_px v m i out)" using Cons.prems by (simp add: length_compose_px)
  show ?case
    using Cons.IH [OF len] compose_px_nth [OF Cons.prems, of v m i] by auto
qed

lemma compose_out_nth:
  assumes "k < 4 * w * h"
  shows "data (compose_out vd fm w h) ! k = (if k mod 4 = 3 then bt (data fm) k else bt (data vd) k)"
proof -
  have "k div 4 < w * h" using assms by (simp add: less_mult_imp_div_less mult.commute mult.left_commute)
  then have "k div 4 \<in> set [0..<w * h]" by simp
  moreover have "k < length (replicate (4 * w * h) (0::byte))" using assms by simp
  ultimately show ?thesis
    unfolding compose_out_def using fold_compose_px_nth [of k "replicate (4 * w * h) 0" "data vd" "data fm" "[0..<w * h]"]
    by simp
qed

lemma length_compose_out: "length (data (compose_out vd fm w h)) = 4 * w * h"
proof -
  have "length (fold (compose_px v m) is out) = length out" for v m "is" out
    by (induction "is" arbitrary: out) (simp_all add: length_compose_px)
  then show ?thesis by (simp add: compose_out_def)
qed

lemma pixel_at_compose_out:
  assumes "x < w" "y < h" "width vd = w" "width fm = w"
  shows "pixel_at (compose_out vd fm w h) x y =
           (case pixel_at vd x y of (r, g, b, _) \<Rightarrow> case pixel_at fm x y of (_, _, _, a) \<Rightarrow> (r, g, b, a))"
proof -
  let ?k = "(y * w + x) * 4"
  have "y * w + x < w * h" using assms(1,2) by (rule cell_index)
  then have k: "?k < 4 * w * h" "?k + 1 < 4 * w * h" "?k + 2 < 4 * w * h" "?k + 3 < 4 * w * h"
    by simp_all
  have m: "?k mod 4 \<noteq> 3" "(?k + 1) mod 4 \<noteq> 3" "(?k + 2) mod 4 \<noteq> 3" "(?k + 3) mod 4 = 3"
    by presburger+
  have wd: "width (compose_out vd fm w h) = w" by (simp add: compose_out_def)
  have b: "bt (data (compose_out vd fm w h)) j = data (compose_out vd fm w h) ! j" if "j < 4 * w * h" for j
    using that by (simp add: bt_def length_compose_out)
  show ?thesis
    unfolding pixel_at_def Let_def wd assms(3,4) prod.case
    using k m by (simp add: b compose_out_nth)
qed

lemma on_pixels_dims:
  "cwidth (on_pixels f cv) = cwidth cv" "cheight (on_pixels f cv) = cheight cv"
  "length (bitmap (on_pixels f cv)) = length (bitmap cv)"
  by (simp_all add: on_pixels_def)

lemma on_pixels_nth:
  assumes "i < length (bitmap cv)"
  shows "bitmap (on_pixels f cv) ! i = f (i mod cwidth cv) (i div cwidth cv) (bitmap cv ! i)"
  using assms by (simp add: on_pixels_def)

lemma source_over_blank_opaque: "source_over (r, g, b, 255) (0, 0, 0, 0) = (r, g, b, 255)"
  by (simp add: source_over_def)



lemma composite_pixel:
  assumes cv: "cwidth ctx = w" "length (bitmap ctx) = w * h"
    and vid: "wf_image vid" "width vid = w" "height vid = h"
    and fm: "width fm = w"
    and xy: "x < w" "y < h"
  shows "bitmap (composite sc bgImage vid fm w h ctx) ! (y * w + x) =
           source_over (lift (case pixel_at vid x y of (r, g, b, _) \<Rightarrow>
                               case pixel_at fm x y of (_, _, _, a) \<Rightarrow> (r, g, b, a)))
                       (backdrop sc bgImage w h x y)"
proof -
  let ?i = "y * w + x"
  let ?c1 = "clearRect w h ctx"
  let ?c2 = "case bgImage of
               Some img \<Rightarrow> drawImage sc img (processFrame_bg_rect w h) ?c1
             | None \<Rightarrow> fillRect green w h ?c1"
  let ?out = "compose_out vid fm w h"
  have i: "?i < w * h" using xy by (rule cell_index)
  have m: "?i mod w = x" "?i div w = y" using xy(1) by simp_all
  have c1: "cwidth ?c1 = w" "length (bitmap ?c1) = w * h" "bitmap ?c1 ! ?i = (0, 0, 0, 0)"
    using i cv xy by (simp_all add: clearRect_def on_pixels_dims on_pixels_nth m)
  have c2d: "cwidth ?c2 = w" "length (bitmap ?c2) = w * h"
    using c1(1,2) by (simp_all add: fillRect_def drawImage_def on_pixels_dims split: option.split)
  have c2: "bitmap ?c2 ! ?i = backdrop sc bgImage w h x y"
  proof (cases bgImage)
    case None
    have "source_over green (0, 0, 0, 0) = green"
      unfolding green_def by (rule source_over_blank_opaque)
    then show ?thesis
      using None i c1 xy by (simp add: fillRect_def on_pixels_nth m backdrop_def)
  next
    case (Some img)
    then show ?thesis
      using i c1 xy by (simp add: drawImage_def on_pixels_nth backdrop_def)
  qed
  have fg: "drawImage_blank sc vid w h = vid" using vid by (rule drawImage_blank_id)
  have g: "getImageData vid w h = Inr vid" using vid by (rule getImageData_id)
  have comp: "composite sc bgImage vid fm w h ctx = drawImage sc ?out (0, 0, of_nat w, of_nat h) ?c2"
    by (simp add: composite_def Let_def fg g)
  have od: "width ?out = w" "height ?out = h" by (simp_all add: compose_out_def)
  have pl: "placed sc ?out (0, 0, of_nat w, of_nat h) x y = Some (pixel_at ?out x y)"
    using xy by (simp add: placed_def od)
  have "bitmap (drawImage sc ?out (0, 0, of_nat w, of_nat h) ?c2) ! ?i =
          source_over (lift (pixel_at ?out x y)) (bitmap ?c2 ! ?i)"
    using i c2d xy by (simp add: drawImage_def on_pixels_nth pl)
  then show ?thesis
    unfolding comp c2 pixel_at_compose_out [OF xy vid(2) fm] .
qed




subsection \<open>Full and empty mask\<close>

lemma source_over_alpha_255: "source_over (r, g, b, 255) bd = (r, g, b, 255)"
  by (cases bd) (simp add: source_over_def)

lemma source_over_alpha_0_green: "source_over (r, g, b, 0) green = green"
  by (simp add: source_over_def green_def)

text \<open>
  X1. Where the mask is 255 and the video pixel is opaque, the output pixel is the video
  pixel as the camera gave it, whatever the background and whatever the enhancement
  mode.
\<close>

theorem composite_full_alpha:
  assumes "cwidth ctx = w" "length (bitmap ctx) = w * h"
    and "wf_image vid" "width vid = w" "height vid = h"
    and "width fm = w" "x < w" "y < h"
    and "pixel_at vid x y = (r, g, b, 255)" "pixel_at fm x y = (mr, mg, mb, 255)"
  shows "bitmap (composite sc bgImage vid fm w h ctx) ! (y * w + x) = lift (r, g, b, 255)"
  unfolding composite_pixel [OF assms(1-8)] assms(9,10)
  by (simp add: lift_def source_over_alpha_255)

theorem composite_full_alpha_witness:
  "wf_image \<lparr>width = 1, height = 1, data = [64, 64, 64, 255]\<rparr> \<and>
   pixel_at \<lparr>width = 1, height = 1, data = [0, 0, 0, 255]\<rparr> 0 0 = (0, 0, 0, 255) \<and>
   bitmap (composite (const_scaler None) None \<lparr>width = 1, height = 1, data = [64, 64, 64, 255]\<rparr>
             \<lparr>width = 1, height = 1, data = [0, 0, 0, 255]\<rparr> 1 1 (reset_canvas 1 1)) ! (0 * 1 + 0) =
     lift (64, 64, 64, 255)"
proof -
  let ?vid = "\<lparr>width = 1, height = 1, data = [64, 64, 64, 255 :: byte]\<rparr>"
  let ?fm = "\<lparr>width = 1, height = 1, data = [0, 0, 0, 255 :: byte]\<rparr>"
  have c: "cwidth (reset_canvas 1 1) = 1" "length (bitmap (reset_canvas 1 1)) = 1 * 1"
    by (simp_all add: reset_canvas_def)
  have v: "wf_image ?vid" "width ?vid = 1" "height ?vid = 1" by (simp_all add: wf_image_def)
  have f: "width ?fm = 1" by simp
  have xy: "(0::nat) < 1" "(0::nat) < 1" by simp_all
  have pv: "pixel_at ?vid 0 0 = (64, 64, 64, 255)" by (simp add: pixel_at_def bt_def)
  have pf: "pixel_at ?fm 0 0 = (0, 0, 0, 255)" by (simp add: pixel_at_def bt_def)
  from composite_full_alpha [OF c v f xy pv pf] v pf show ?thesis by blast
qed

text \<open>
  X2. Where the mask is 0 and no background image is loaded, the output pixel is the
  fill of \<open>processFrame\<close>, the colour \<open>green\<close>.
\<close>

theorem composite_fallback_fill:
  assumes "cwidth ctx = w" "length (bitmap ctx) = w * h"
    and "wf_image vid" "width vid = w" "height vid = h"
    and "width fm = w" "x < w" "y < h"
    and "pixel_at fm x y = (mr, mg, mb, 0)"
  shows "bitmap (composite sc None vid fm w h ctx) ! (y * w + x) = green"
proof -
  obtain r g b a where v: "pixel_at vid x y = (r, g, b, a)" by (cases "pixel_at vid x y")
  show ?thesis
    unfolding composite_pixel [OF assms(1-8)] assms(9) v
    by (simp add: lift_def source_over_alpha_0_green backdrop_def)
qed

theorem composite_fallback_fill_witness:
  "wf_image \<lparr>width = 1, height = 1, data = [64, 64, 64, 255]\<rparr> \<and>
   pixel_at \<lparr>width = 1, height = 1, data = [0, 0, 0, 0]\<rparr> 0 0 = (0, 0, 0, 0) \<and>
   bitmap (composite (const_scaler None) None \<lparr>width = 1, height = 1, data = [64, 64, 64, 255]\<rparr>
             \<lparr>width = 1, height = 1, data = [0, 0, 0, 0]\<rparr> 1 1 (reset_canvas 1 1)) ! (0 * 1 + 0) = green"
proof -
  let ?vid = "\<lparr>width = 1, height = 1, data = [64, 64, 64, 255 :: byte]\<rparr>"
  let ?fm = "\<lparr>width = 1, height = 1, data = [0, 0, 0, 0 :: byte]\<rparr>"
  have c: "cwidth (reset_canvas 1 1) = 1" "length (bitmap (reset_canvas 1 1)) = 1 * 1"
    by (simp_all add: reset_canvas_def)
  have v: "wf_image ?vid" "width ?vid = 1" "height ?vid = 1" by (simp_all add: wf_image_def)
  have f: "width ?fm = 1" by simp
  have xy: "(0::nat) < 1" "(0::nat) < 1" by simp_all
  have pf: "pixel_at ?fm 0 0 = (0, 0, 0, 0)" by (simp add: pixel_at_def bt_def)
  from composite_fallback_fill [OF c v f xy pf] v pf show ?thesis by blast
qed

subsection \<open>Where the background is drawn\<close>

text \<open>
  X3. The rectangle that \<open>replaceBackground\<close> and \<open>createBackground\<close> draw the
  background into covers the canvas, fits it exactly in one direction, keeps the aspect
  ratio of the image and is centred.
\<close>

theorem cover_rect_covers:
  assumes "0 < bw" "0 < bh"
  shows "case cover_rect cw ch bw bh of (x, y, sw, sh) \<Rightarrow>
           of_nat cw \<le> sw \<and> of_nat ch \<le> sh \<and> (sw = of_nat cw \<or> sh = of_nat ch) \<and>
           sw * of_nat bh = sh * of_nat bw \<and>
           x = (of_nat cw - sw) / 2 \<and> y = (of_nat ch - sh) / 2"
proof -
  let ?s = "max (of_nat cw / of_nat bw) (of_nat ch / of_nat bh) :: rat"
  have b: "(0::rat) < of_nat bw" "(0::rat) < of_nat bh" using assms by simp_all
  have 1: "of_nat cw \<le> of_nat bw * ?s"
  proof -
    have "of_nat cw = of_nat bw * (of_nat cw / of_nat bw :: rat)" using b by simp
    also have "\<dots> \<le> of_nat bw * ?s" using b by (intro mult_left_mono) simp_all
    finally show ?thesis .
  qed
  have 2: "of_nat ch \<le> of_nat bh * ?s"
  proof -
    have "of_nat ch = of_nat bh * (of_nat ch / of_nat bh :: rat)" using b by simp
    also have "\<dots> \<le> of_nat bh * ?s" using b by (intro mult_left_mono) simp_all
    finally show ?thesis .
  qed
  have 3: "of_nat bw * ?s = of_nat cw \<or> of_nat bh * ?s = of_nat ch"
    using b by (auto simp: max_def)
  show ?thesis
    using 1 2 3 by (simp add: cover_rect_def Let_def mult.commute mult.left_commute)
qed

theorem cover_rect_covers_witness:
  "(0::nat) < 100 \<and>
   (case cover_rect 1280 720 100 100 of (x, y, sw, sh) \<Rightarrow>
      of_nat 1280 \<le> sw \<and> of_nat 720 \<le> sh \<and> (sw = of_nat 1280 \<or> sh = of_nat 720) \<and>
      sw * of_nat 100 = sh * of_nat 100 \<and>
      x = (of_nat 1280 - sw) / 2 \<and> y = (of_nat 720 - sh) / 2)"
proof -
  have p: "(0::nat) < 100" by simp
  from cover_rect_covers [OF p p, of 1280 720] p show ?thesis by blast
qed

text \<open>
  C6. \<open>processFrame\<close> draws the background image into the rectangle of the whole
  canvas, whatever the size of the image: a 100 by 100 image on a 1280 by 720 canvas is
  scaled by 12.8 horizontally and 7.2 vertically. The cover rectangle for that input,
  which \<open>replaceBackground\<close> and \<open>createBackground\<close> compute, is 1280 by 1280 at
  \<open>(0, -280)\<close>.
\<close>

theorem processFrame_background_stretched:
  "processFrame_bg_rect 1280 720 = (0, 0, 1280, 720) \<and>
   cover_rect 1280 720 100 100 = (0, - 280, 1280, 1280) \<and>
   processFrame_bg_rect 1280 720 \<noteq> cover_rect 1280 720 100 100"
  by (simp add: processFrame_bg_rect_def cover_rect_def Let_def)

section \<open>Properties of the frame loop\<close>

lemma init_fields:
  "modelStatus init = Idle" "running init = False" "runningRef init = False"
  "videoReadyRef init = False" "enhanceRef init = EnhanceGamma" "bgImageRef init = None"
  "segmenterRef init = False" "rafPending init = False" "inflight init = []"
  "video init = \<lparr>width = 0, height = 0, data = []\<rparr>"
  by (simp_all add: init_def)

lemma processFrame_gate_fields:
  "modelStatus (processFrame curve sc st) = modelStatus st"
  "videoReadyRef (processFrame curve sc st) = videoReadyRef st"
  "running (processFrame curve sc st) = running st"
  "rafPending (processFrame curve sc st) = rafPending st"
  by (simp_all add: processFrame_def Let_def)

lemma resolve_gate_fields:
  "modelStatus (resolve sc p oc st) = modelStatus st"
  "videoReadyRef (resolve sc p oc st) = videoReadyRef st"
  "running (resolve sc p oc st) = running st"
  "rafPending (resolve sc p oc st) = rafPending st"
  by (simp_all add: resolve_def split: outcome.split sum.split)

lemma step_armed_only_if_gate:
  assumes "rafPending st \<longrightarrow> canRun st"
  shows "rafPending (step curve sc st ev) \<longrightarrow> canRun (step curve sc st ev)"
  using assms
  by (cases ev)
     (simp_all add: step_def loop_effect_def canRun_def Let_def processFrame_gate_fields resolve_gate_fields)

text \<open>
  X4. In every state the component reaches, a scheduled \<open>loop\<close> implies the gate: the
  loop is never armed while the model is not ready, the camera has not delivered data or
  the user has not asked to run.
\<close>

theorem armed_only_if_gate:
  "rafPending (run curve sc init evs) \<longrightarrow> canRun (run curve sc init evs)"
proof (induction evs rule: rev_induct)
  case Nil
  then show ?case by (simp add: run_def init_fields)
next
  case (snoc ev evs)
  then show ?case
    using step_armed_only_if_gate [of "run curve sc init evs" curve sc ev] by (simp add: run_def)
qed

theorem armed_only_if_gate_witness:
  "rafPending (run gamma_curve (const_scaler None) init [InitModel, ModelLoaded, LoadedData, Click]) \<and>
   canRun (run gamma_curve (const_scaler None) init [InitModel, ModelLoaded, LoadedData, Click])"
proof -
  have r: "rafPending (run gamma_curve (const_scaler None) init [InitModel, ModelLoaded, LoadedData, Click])"
    by (simp add: run_def step_def loop_effect_def init_fields)
  from armed_only_if_gate [of gamma_curve "const_scaler None" "[InitModel, ModelLoaded, LoadedData, Click]"] r
  show ?thesis by blast
qed

text \<open>
  A tick starts a cycle only if \<open>loop\<close> is scheduled and \<open>runningRef\<close> is set.
\<close>

lemma cycle_starts_only_if_armed:
  assumes "inflight (step curve sc st Tick) \<noteq> inflight st"
  shows "rafPending st \<and> runningRef st"
  using assms by (auto simp: step_def processFrame_def split: if_splits)

lemma resolve_failure_draws_nothing:
  "resolve sc p Threw st = st" "resolve sc p NoSegmentation st = st" "resolve sc p NoMask st = st"
  by (simp_all add: resolve_def)

text \<open>
  X5. A cycle whose inference throws, or yields no segmentation or no mask, changes
  nothing when it settles, and a tick leaves the loop scheduled.
\<close>

theorem failed_cycle_draws_nothing:
  "resolve sc p Threw st = st \<and> resolve sc p NoSegmentation st = st \<and> resolve sc p NoMask st = st \<and>
   rafPending (step curve sc st Tick) = rafPending st"
  by (simp add: resolve_failure_draws_nothing step_def processFrame_gate_fields)

text \<open>
  X6. Settling a cycle neither reads nor writes \<open>running\<close> and \<open>runningRef\<close>: what it
  draws does not depend on them.
\<close>

theorem resolve_ignores_running:
  "resolve sc p oc (st\<lparr>running := b, runningRef := b'\<rparr>) =
     (resolve sc p oc st)\<lparr>running := b, runningRef := b'\<rparr>"
  by (simp add: resolve_def split: outcome.split sum.split)

subsection \<open>Runs on a one-pixel camera\<close>

lemma wf_1x1: "wf_image \<lparr>width = Suc 0, height = Suc 0, data = [a, b, c, d]\<rparr>"
  by (simp add: wf_image_def)

lemma drawImage_blank_1x1:
  "drawImage_blank sc \<lparr>width = Suc 0, height = Suc 0, data = [a, b, c, d]\<rparr> (Suc 0) (Suc 0) =
    \<lparr>width = Suc 0, height = Suc 0, data = [a, b, c, d]\<rparr>"
  by (rule drawImage_blank_id) (simp_all add: wf_1x1)

lemma getImageData_1x1:
  "getImageData \<lparr>width = Suc 0, height = Suc 0, data = [a, b, c, d]\<rparr> (Suc 0) (Suc 0) =
    Inr \<lparr>width = Suc 0, height = Suc 0, data = [a, b, c, d]\<rparr>"
  by (rule getImageData_id) (simp_all add: wf_1x1)

lemma upt_0_4: "[0..<4] = [0, 1, 2, 3]"
  by code_simp

lemma enhanceGamma_1x1:
  "enhanceGamma curve \<lparr>width = Suc 0, height = Suc 0, data = [r, g, b, a]\<rparr> =
   \<lparr>width = Suc 0, height = Suc 0, data = [curve (unat r), curve (unat g), curve (unat b), a]\<rparr>"
  by (simp add: enhanceGamma_def upt_0_4)

lemma blurMask_1x1_255:
  "blurMask \<lparr>width = Suc 0, height = Suc 0, data = [0, 0, 0, 255]\<rparr> 1 =
     Inr \<lparr>width = Suc 0, height = Suc 0, data = [0, 0, 0, 255]\<rparr>"
  by code_simp

lemma blurMask_1x1_0:
  "blurMask \<lparr>width = Suc 0, height = Suc 0, data = [0, 0, 0, 0]\<rparr> 1 =
     Inr \<lparr>width = Suc 0, height = Suc 0, data = [0, 0, 0, 0]\<rparr>"
  by code_simp

lemma compose_out_1x1:
  "compose_out \<lparr>width = Suc 0, height = Suc 0, data = [r, g, b, a]\<rparr>
     \<lparr>width = Suc 0, height = Suc 0, data = [mr, mg, mb, ma]\<rparr> (Suc 0) (Suc 0) =
   \<lparr>width = Suc 0, height = Suc 0, data = [r, g, b, ma]\<rparr>"
  by (simp add: compose_out_def compose_px_def bt_def numeral_eq_Suc)

lemma gamma_curve_64: "gamma_curve 64 = 101"
proof -
  have p: "(2 * n + 1) ^ 3 \<le> 2040 * 64 * 64 \<longleftrightarrow> n < 101" for n :: nat
  proof
    assume a: "(2 * n + 1) ^ 3 \<le> 2040 * 64 * (64::nat)"
    show "n < 101"
    proof (rule ccontr)
      assume "\<not> n < 101"
      then have "203 \<le> 2 * n + 1" by simp
      then have "(203::nat) ^ 3 \<le> (2 * n + 1) ^ 3" by (rule power_mono) simp
      with a show False by simp
    qed
  next
    assume "n < 101"
    then have "2 * n + 1 \<le> 201" by simp
    then have "(2 * n + 1) ^ 3 \<le> (201::nat) ^ 3" by (rule power_mono) simp
    then show "(2 * n + 1) ^ 3 \<le> 2040 * 64 * (64::nat)" by simp
  qed
  have "length (filter (\<lambda>n. (2 * n + 1) ^ 3 \<le> 2040 * 64 * 64) [0..<255]) =
          card {i. i < 255 \<and> i < (101::nat)}"
  proof -
    have "{i. i < 255 \<and> [0..<255] ! i < (101::nat)} = {i. i < 255 \<and> i < (101::nat)}"
      by (rule Collect_cong) auto
    then show ?thesis unfolding p by (simp add: length_filter_conv_card)
  qed
  also have "{i. i < 255 \<and> i < (101::nat)} = {..<101}" by auto
  finally show ?thesis by (simp add: gamma_curve_def)
qed

lemmas eval_1x1 =
  run_def step_def loop_effect_def processFrame_def resolve_def reconcileMask_def composite_def
  init_fields Let_def drawImage_blank_1x1 getImageData_1x1 enhanceGamma_1x1 blurMask_1x1_255
  blurMask_1x1_0 compose_out_1x1 clearRect_def fillRect_def drawImage_def on_pixels_def
  reset_canvas_def placed_def pixel_at_def bt_def lift_def source_over_def green_def
  processFrame_bg_rect_def canRun_def

text \<open>
  C1. The model becomes ready, the user presses Start, and only then the camera delivers
  its first frame (\<open>loadeddata\<close>). All three conditions of the gate hold, but the loop
  effect ran when \<open>running\<close> changed, returned early, and nothing runs it again: no
  \<open>loop\<close> is scheduled, and animation frames start no cycle.
\<close>

theorem loop_not_armed_when_camera_ready_last:
  "canRun (run curve sc init [InitModel, ModelLoaded, Click, LoadedData, NewFrame f]) \<and>
   \<not> rafPending (run curve sc init [InitModel, ModelLoaded, Click, LoadedData, NewFrame f]) \<and>
   inflight (run curve sc init [InitModel, ModelLoaded, Click, LoadedData, NewFrame f, Tick, Tick]) = []"
  by (simp add: run_def step_def loop_effect_def init_fields canRun_def)

text \<open>
  C2. A cycle is started, then the user presses Stop while the inference is awaited:
  the gate is false, \<open>runningRef\<close> is false and no \<open>loop\<close> is scheduled. When the
  inference settles with a mask, the cycle draws its frame on the canvas all the same:
  nothing after the \<open>await\<close> looks at \<open>runningRef\<close>.
\<close>

theorem stale_result_drawn_after_stop:
  "\<not> canRun (run curve sc init
      [InitModel, ModelLoaded, LoadedData, NewFrame \<lparr>width = 1, height = 1, data = [64, 64, 64, 255]\<rparr>,
       Click, Tick, Click]) \<and>
   \<not> runningRef (run curve sc init
      [InitModel, ModelLoaded, LoadedData, NewFrame \<lparr>width = 1, height = 1, data = [64, 64, 64, 255]\<rparr>,
       Click, Tick, Click]) \<and>
   canvas (run curve sc init
      [InitModel, ModelLoaded, LoadedData, NewFrame \<lparr>width = 1, height = 1, data = [64, 64, 64, 255]\<rparr>,
       Click, Tick, Click]) = \<lparr>cwidth = 1, cheight = 1, bitmap = [(0, 0, 0, 0)]\<rparr> \<and>
   canvas (run curve sc init
      [InitModel, ModelLoaded, LoadedData, NewFrame \<lparr>width = 1, height = 1, data = [64, 64, 64, 255]\<rparr>,
       Click, Tick, Click, Resolve 0 (Mask \<lparr>width = 1, height = 1, data = [0, 0, 0, 255]\<rparr>)]) =
     \<lparr>cwidth = 1, cheight = 1, bitmap = [(64, 64, 64, 255)]\<rparr>"
  by (simp add: eval_1x1)

text \<open>
  C3. A first cycle draws a frame. The next cycle assigns \<open>canvas.width\<close> and
  \<open>canvas.height\<close> before it calls the segmenter, which resets the canvas; its inference
  throws, the exception is caught and the loop stays scheduled, but the canvas is blank:
  the frame shown before the failed cycle is gone.
\<close>

theorem failed_cycle_blanks_canvas:
  "canvas (run curve sc init
      [InitModel, ModelLoaded, LoadedData, NewFrame \<lparr>width = 1, height = 1, data = [64, 64, 64, 255]\<rparr>,
       Click, Tick, Resolve 0 (Mask \<lparr>width = 1, height = 1, data = [0, 0, 0, 255]\<rparr>)]) =
     \<lparr>cwidth = 1, cheight = 1, bitmap = [(64, 64, 64, 255)]\<rparr> \<and>
   canvas (run curve sc init
      [InitModel, ModelLoaded, LoadedData, NewFrame \<lparr>width = 1, height = 1, data = [64, 64, 64, 255]\<rparr>,
       Click, Tick, Resolve 0 (Mask \<lparr>width = 1, height = 1, data = [0, 0, 0, 255]\<rparr>),
       Tick, Resolve 0 Threw]) =
     \<lparr>cwidth = 1, cheight = 1, bitmap = [(0, 0, 0, 0)]\<rparr> \<and>
   rafPending (run curve sc init
      [InitModel, ModelLoaded, LoadedData, NewFrame \<lparr>width = 1, height = 1, data = [64, 64, 64, 255]\<rparr>,
       Click, Tick, Resolve 0 (Mask \<lparr>width = 1, height = 1, data = [0, 0, 0, 255]\<rparr>),
       Tick, Resolve 0 Threw])"
  by (simp add: eval_1x1)

text \<open>
  C4. In gamma mode the enhanced pixels are written to the off-screen canvas, the input
  of the segmenter: the video pixel 64 becomes 101 there. The foreground of the composite
  is drawn from the video element again: under a mask of alpha 255 the output pixel is
  the video's 64, not the enhanced 101.
\<close>

theorem enhanced_frame_not_composited:
  "offscreen (run gamma_curve sc init
      [InitModel, ModelLoaded, LoadedData, NewFrame \<lparr>width = 1, height = 1, data = [64, 64, 64, 255]\<rparr>,
       Click, Tick]) = \<lparr>width = 1, height = 1, data = [101, 101, 101, 255]\<rparr> \<and>
   canvas (run gamma_curve sc init
      [InitModel, ModelLoaded, LoadedData, NewFrame \<lparr>width = 1, height = 1, data = [64, 64, 64, 255]\<rparr>,
       Click, Tick, Resolve 0 (Mask \<lparr>width = 1, height = 1, data = [0, 0, 0, 255]\<rparr>)]) =
     \<lparr>cwidth = 1, cheight = 1, bitmap = [(64, 64, 64, 255)]\<rparr>"
  by (simp add: eval_1x1 gamma_curve_64)

text \<open>
  C7. The background image failed to load and the mask is 0: the output pixel is the
  fill of \<open>processFrame\<close>, the CSS colour \<open>green\<close>, \<open>rgb(0, 128, 0)\<close>, and not the light
  gray \<open>#f0f0f0\<close> that \<open>replaceBackground\<close> and \<open>createBackground\<close> fill with.
\<close>

theorem fallback_fill_is_green:
  "bgImageRef (run curve sc init
      [InitModel, ModelLoaded, LoadedData, NewFrame \<lparr>width = 1, height = 1, data = [64, 64, 64, 255]\<rparr>,
       BgFailed, Click, Tick]) = None \<and>
   canvas (run curve sc init
      [InitModel, ModelLoaded, LoadedData, NewFrame \<lparr>width = 1, height = 1, data = [64, 64, 64, 255]\<rparr>,
       BgFailed, Click, Tick, Resolve 0 (Mask \<lparr>width = 1, height = 1, data = [0, 0, 0, 0]\<rparr>)]) =
     \<lparr>cwidth = 1, cheight = 1, bitmap = [(0, 128, 0, 255)]\<rparr> \<and>
   (0, 128, 0, 255) \<noteq> light_gray"
  by (simp add: eval_1x1 light_gray_def)

end
